theory Spec2Isabelle
  imports Main
begin

section \<open>Python values\<close>

text \<open>
  Every value the client handles is either decoded from a JSON response or is
  Python's \<open>None\<close>, so one datatype serves for both: \<open>JNull\<close> is \<open>None\<close>, a
  \<open>dict\<close> is an association list in insertion order.  A float is a finite
  double \<open>m * 2 ^ e\<close>, an infinity (\<open>FInf negative\<close>) or a NaN, the last two
  being accepted by Python's decoder.
\<close>

datatype pyfloat = FFin int int | FInf bool | FNaN

datatype json =
    JNull
  | JBool bool
  | JInt int
  | JFloat pyfloat
  | JStr string
  | JList "json list"
  | JObj "(string \<times> json) list"

text \<open>
  The exceptions that can surface: \<open>KeyError\<close> (with the missing key) and
  \<open>TypeError\<close> are raised by the script's own expressions and calls,
  \<open>RequestException\<close> and \<open>JSONDecodeError\<close> by the libraries.
\<close>

datatype py_error =
    KeyError string
  | TypeError
  | JSONDecodeError
  | RequestException

subsection \<open>Truth value, subscription, iteration\<close>

text \<open>The truth test of \<open>if result['complete']\<close>.\<close>

fun truthy :: "json \<Rightarrow> bool" where
  "truthy JNull = False"
| "truthy (JBool b) = b"
| "truthy (JInt i) = (i \<noteq> 0)"
| "truthy (JFloat (FFin m e)) = (m \<noteq> 0)"
| "truthy (JFloat (FInf neg)) = True"
| "truthy (JFloat FNaN) = True"
| "truthy (JStr s) = (s \<noteq> [])"
| "truthy (JList xs) = (xs \<noteq> [])"
| "truthy (JObj kvs) = (kvs \<noteq> [])"

text \<open>
  \<open>v[key]\<close> with a string key: a dict looks the key up, every other value
  raises \<open>TypeError\<close> (a list or string wants an integer index, the rest are
  not subscriptable).
\<close>

fun subscript :: "json \<Rightarrow> string \<Rightarrow> py_error + json" where
  "subscript (JObj kvs) key =
     (case map_of kvs key of None \<Rightarrow> Inl (KeyError key) | Some v \<Rightarrow> Inr v)"
| "subscript v key = Inl TypeError"

text \<open>
  \<open>for r in v\<close>: a list yields its elements, a dict its keys, a string its
  characters; the other values are not iterable.
\<close>

fun py_iter :: "json \<Rightarrow> py_error + json list" where
  "py_iter (JList xs) = Inr xs"
| "py_iter (JObj kvs) = Inr (map (\<lambda>kv. JStr (fst kv)) kvs)"
| "py_iter (JStr s) = Inr (map (\<lambda>ch. JStr [ch]) s)"
| "py_iter v = Inl TypeError"

subsection \<open>Formatting in f-strings\<close>

definition digit_char :: "nat \<Rightarrow> char" where
  "digit_char d = char_of (48 + d)"

fun str_nat :: "nat \<Rightarrow> string" where
  "str_nat n = (if n < 10 then [digit_char n] else str_nat (n div 10) @ [digit_char (n mod 10)])"

definition str_int :: "int \<Rightarrow> string" where
  "str_int i = (if i < 0 then CHR ''-'' # str_nat (nat (- i)) else str_nat (nat i))"

text \<open>
  \<open>f'{v}'\<close> is \<open>str(v)\<close>.  For \<open>None\<close>, booleans, integers and strings it is
  written out; for floats and containers it is Python's \<open>repr\<close>, a parameter.
\<close>

fun py_str :: "(json \<Rightarrow> string) \<Rightarrow> json \<Rightarrow> string" where
  "py_str rp JNull = ''None''"
| "py_str rp (JBool b) = (if b then ''True'' else ''False'')"
| "py_str rp (JInt i) = str_int i"
| "py_str rp (JStr s) = s"
| "py_str rp v = rp v"

section \<open>The libraries and the world\<close>

datatype http_method = GET | POST

text \<open>
  A request as the script hands it to \<open>requests\<close>: the method, the URL, the
  \<open>headers=\<close> argument (empty when none is passed) and the \<open>json=\<close> body.
\<close>

record request =
  meth :: http_method
  url :: string
  headers :: "(string \<times> string) list"
  body :: "json option"

text \<open>
  The library functions the script calls are parameters:
  \<^item> \<open>transport\<close> is \<open>requests.get\<close>/\<open>requests.post\<close> followed by \<open>.json()\<close>,
    against a server in state \<open>'s\<close>: it raises or gives the decoded body;
  \<^item> \<open>loads\<close> is \<open>json.loads\<close> on a \<open>str\<close>;
  \<^item> \<open>repr\<close> is Python's \<open>repr\<close> of floats and containers.
\<close>

record 's libs =
  transport :: "'s \<Rightarrow> request \<Rightarrow> (py_error + json) \<times> 's"
  loads :: "string \<Rightarrow> py_error + json"
  repr :: "json \<Rightarrow> string"

text \<open>
  What the script acts on: the server, the exchanges so far (each request with
  what came back, oldest first), standard output and the seconds slept.
\<close>

record 's world =
  server :: 's
  exchanges :: "(request \<times> (py_error + json)) list"
  stdout :: string
  slept :: nat

definition send :: "'s libs \<Rightarrow> request \<Rightarrow> 's world \<Rightarrow> (py_error + json) \<times> 's world" where
  "send L rq w =
     (case transport L (server w) rq of
        (resp, s') \<Rightarrow> (resp, w\<lparr>server := s', exchanges := exchanges w @ [(rq, resp)]\<rparr>))"

definition print :: "string \<Rightarrow> 's world \<Rightarrow> 's world" where
  "print s w = w\<lparr>stdout := stdout w @ s\<rparr>"

definition sleep :: "nat \<Rightarrow> 's world \<Rightarrow> 's world" where
  "sleep n w = w\<lparr>slept := slept w + n\<rparr>"

text \<open>\<open>json.loads(v)\<close>: a \<open>str\<close> is parsed, any other value here is a \<open>TypeError\<close>.\<close>

fun json_loads :: "'s libs \<Rightarrow> json \<Rightarrow> py_error + json" where
  "json_loads L (JStr s) = loads L s"
| "json_loads L v = Inl TypeError"

section \<open>The client\<close>

record client =
  host :: string
  api_path :: string
  collaboration_id :: json
  username :: json
  password :: json
  access_token :: json
  refresh_token :: json

text \<open>
  The constructor; a caller that leaves \<open>api_path\<close> out passes the default
  \<open>'/api'\<close>.  Both tokens start as \<open>None\<close>.
\<close>

definition Client :: "string \<Rightarrow> json \<Rightarrow> json \<Rightarrow> json \<Rightarrow> string \<Rightarrow> client" where
  "Client h cid u p ap =
     \<lparr>host = h, api_path = ap, collaboration_id = cid, username = u, password = p,
      access_token = JNull, refresh_token = JNull\<rparr>"

definition baseURL :: "client \<Rightarrow> string" where
  "baseURL c = host c @ api_path c"

definition auth_headers :: "'s libs \<Rightarrow> client \<Rightarrow> (string \<times> string) list" where
  "auth_headers L c = [(''Authorization'', ''Bearer '' @ py_str (repr L) (access_token c))]"

definition get_request :: "'s libs \<Rightarrow> client \<Rightarrow> string \<Rightarrow> request" where
  "get_request L c u =
     \<lparr>meth = GET, url = baseURL c @ u, headers = auth_headers L c, body = None\<rparr>"

definition post_request :: "'s libs \<Rightarrow> client \<Rightarrow> string \<Rightarrow> json \<Rightarrow> request" where
  "post_request L c u task =
     \<lparr>meth = POST, url = baseURL c @ u, headers = auth_headers L c, body = Some task\<rparr>"

definition get :: "'s libs \<Rightarrow> client \<Rightarrow> string \<Rightarrow> 's world \<Rightarrow> (py_error + json) \<times> 's world" where
  "get L c u w = send L (get_request L c u) w"

definition post :: "'s libs \<Rightarrow> client \<Rightarrow> string \<Rightarrow> json \<Rightarrow> 's world \<Rightarrow> (py_error + json) \<times> 's world" where
  "post L c u task w = send L (post_request L c u task) w"

definition token_request :: "client \<Rightarrow> request" where
  "token_request c =
     \<lparr>meth = POST, url = host c @ api_path c @ ''/token/user'', headers = [],
      body = Some (JObj [(''username'', username c), (''password'', password c)])\<rparr>"

text \<open>
  \<open>authenticate\<close> assigns the two attributes one after the other, so the
  client is returned also when it raises: a response without
  \<open>'refresh_token'\<close> has already replaced the access token.
\<close>

definition authenticate :: "'s libs \<Rightarrow> client \<Rightarrow> 's world \<Rightarrow> (py_error + unit) \<times> client \<times> 's world" where
  "authenticate L c w =
     (case send L (token_request c) w of
        (Inl e, w') \<Rightarrow> (Inl e, c, w')
      | (Inr r, w') \<Rightarrow>
          (case subscript r ''access_token'' of
             Inl e \<Rightarrow> (Inl e, c, w')
           | Inr a \<Rightarrow>
               (case subscript r ''refresh_token'' of
                  Inl e \<Rightarrow> (Inl e, c\<lparr>access_token := a\<rparr>, w')
                | Inr f \<Rightarrow> (Inr (), c\<lparr>access_token := a, refresh_token := f\<rparr>, w'))))"

definition create_task :: "'s libs \<Rightarrow> client \<Rightarrow> json \<Rightarrow> 's world \<Rightarrow> (py_error + json) \<times> 's world" where
  "create_task L c task w = post L c ''/task'' task w"

text \<open>
  The \<open>while True\<close> loop of \<open>wait_for_results\<close>, with fuel: \<open>None\<close> is the
  loop still running when the fuel is spent, in the world reached by then.
\<close>

fun poll :: "nat \<Rightarrow> 's libs \<Rightarrow> client \<Rightarrow> string \<Rightarrow> 's world \<Rightarrow> (py_error + unit) option \<times> 's world" where
  "poll 0 L c path w = (None, w)"
| "poll (Suc n) L c path w =
     (case get L c path w of
        (Inl e, w') \<Rightarrow> (Some (Inl e), w')
      | (Inr result, w') \<Rightarrow>
          (case subscript result ''complete'' of
             Inl e \<Rightarrow> (Some (Inl e), w')
           | Inr flag \<Rightarrow>
               if truthy flag then (Some (Inr ()), w')
               else poll n L c path (sleep 5 (print ''.'' w'))))"

text \<open>The comprehension \<open>[json.loads(r['result']) for r in ...]\<close>, left to right.\<close>

fun load_results :: "'s libs \<Rightarrow> json list \<Rightarrow> py_error + json list" where
  "load_results L [] = Inr []"
| "load_results L (r # rs) =
     (case subscript r ''result'' of
        Inl e \<Rightarrow> Inl e
      | Inr s \<Rightarrow>
          (case json_loads L s of
             Inl e \<Rightarrow> Inl e
           | Inr v \<Rightarrow>
               (case load_results L rs of Inl e \<Rightarrow> Inl e | Inr vs \<Rightarrow> Inr (v # vs))))"

text \<open>
  What \<open>wait_for_results\<close> does once the loop is left: \<open>print()\<close>, the GET
  with \<open>?include=results\<close>, then the comprehension over \<open>result['results']\<close>.
\<close>

definition fetch_results :: "'s libs \<Rightarrow> client \<Rightarrow> string \<Rightarrow> 's world \<Rightarrow> (py_error + json list) \<times> 's world" where
  "fetch_results L c path w =
     (case get L c (path @ ''?include=results'') (print [CHR 0x0A] w) of
        (Inl e, w') \<Rightarrow> (Inl e, w')
      | (Inr result, w') \<Rightarrow>
          (case subscript result ''results'' of
             Inl e \<Rightarrow> (Inl e, w')
           | Inr rs \<Rightarrow>
               (case py_iter rs of
                  Inl e \<Rightarrow> (Inl e, w')
                | Inr entries \<Rightarrow> (load_results L entries, w'))))"

text \<open>\<open>path = f'/task/{task_id}'\<close>.\<close>

definition task_path :: "'s libs \<Rightarrow> json \<Rightarrow> string" where
  "task_path L task_id = ''/task/'' @ py_str (repr L) task_id"

definition wait_for_results ::
  "nat \<Rightarrow> 's libs \<Rightarrow> client \<Rightarrow> json \<Rightarrow> 's world \<Rightarrow> (py_error + json list) option \<times> 's world" where
  "wait_for_results n L c task_id w =
     (case poll n L c (task_path L task_id) w of
        (None, w') \<Rightarrow> (None, w')
      | (Some (Inl e), w') \<Rightarrow> (Some (Inl e), w')
      | (Some (Inr u), w') \<Rightarrow>
          (case fetch_results L c (task_path L task_id) w' of (r, w'') \<Rightarrow> (Some r, w'')))"

section \<open>The script\<close>

definition task_of :: "string \<Rightarrow> string \<Rightarrow> json \<Rightarrow> json" where
  "task_of h ap cid =
     JObj [(''name'', JStr ''RPC call from Python''),
           (''image'', JStr ''docker-registry.distributedlearning.ai/dl_test''),
           (''collaboration_id'', cid),
           (''input'', JObj [(''role'', JStr ''master''), (''host'', JStr h),
                             (''api_path'', JStr ap), (''collaboration_id'', cid)]),
           (''database'', JStr ''''),
           (''description'', JStr '''')]"

definition run ::
  "nat \<Rightarrow> 's libs \<Rightarrow> string \<Rightarrow> string \<Rightarrow> json \<Rightarrow> json \<Rightarrow> json \<Rightarrow> 's world
     \<Rightarrow> (py_error + json list) option \<times> 's world" where
  "run n L h ap u p cid w =
     (case authenticate L (Client h cid u p ap) w of
        (Inl e, c, w1) \<Rightarrow> (Some (Inl e), w1)
      | (Inr x, c, w1) \<Rightarrow>
          (case create_task L c (task_of h ap cid) w1 of
             (Inl e, w2) \<Rightarrow> (Some (Inl e), w2)
           | (Inr response, w2) \<Rightarrow>
               (case subscript response ''id'' of
                  Inl e \<Rightarrow> (Some (Inl e), w2)
                | Inr task_id \<Rightarrow> wait_for_results n L c task_id w2)))"

text \<open>
  A call of \<open>run\<close> binds its positional arguments to the five parameters
  \<open>host, api_path, username, password, collaboration_id\<close>; with any other
  number of arguments Python raises \<open>TypeError\<close> at the call, before the body
  is entered.  \<open>run\<close> is modelled for a host and an API path that are \<open>str\<close>:
  the outer \<open>None\<close> is a call with five arguments outside these types.
\<close>

definition call_run ::
  "nat \<Rightarrow> 's libs \<Rightarrow> json list \<Rightarrow> 's world
     \<Rightarrow> ((py_error + json list) option \<times> 's world) option" where
  "call_run n L args w =
     (if length args \<noteq> 5 then Some (Some (Inl TypeError), w)
      else (case args of
              [JStr h, JStr ap, u, p, cid] \<Rightarrow> Some (run n L h ap u p cid w)
            | _ \<Rightarrow> None))"

text \<open>
  The module's last statement, \<open>if __name__ == '__main__': run()\<close>; the value
  \<open>run\<close> returns is dropped.
\<close>

definition script ::
  "nat \<Rightarrow> 's libs \<Rightarrow> string \<Rightarrow> 's world \<Rightarrow> ((py_error + unit) option \<times> 's world) option" where
  "script n L name w =
     (if name = ''__main__'' then
        (case call_run n L [] w of
           None \<Rightarrow> None
         | Some (r, w') \<Rightarrow> Some (map_option (map_sum id (\<lambda>vs. ())) r, w'))
      else Some (Some (Inr ()), w))"

section \<open>Vocabulary of the properties\<close>

text \<open>What a status response tells the loop: stop, or poll again.\<close>

definition reports_complete :: "py_error + json \<Rightarrow> bool" where
  "reports_complete resp =
     (case resp of
        Inl e \<Rightarrow> False
      | Inr r \<Rightarrow> (case subscript r ''complete'' of Inl e \<Rightarrow> False | Inr flag \<Rightarrow> truthy flag))"

definition reports_pending :: "py_error + json \<Rightarrow> bool" where
  "reports_pending resp =
     (case resp of
        Inl e \<Rightarrow> False
      | Inr r \<Rightarrow> (case subscript r ''complete'' of Inl e \<Rightarrow> False | Inr flag \<Rightarrow> \<not> truthy flag))"

definition status_request :: "'s libs \<Rightarrow> client \<Rightarrow> json \<Rightarrow> request" where
  "status_request L c task_id = get_request L c (task_path L task_id)"

definition results_request :: "'s libs \<Rightarrow> client \<Rightarrow> json \<Rightarrow> request" where
  "results_request L c task_id = get_request L c (task_path L task_id @ ''?include=results'')"




definition bearer :: "'s libs \<Rightarrow> json \<Rightarrow> (string \<times> string) list" where
  "bearer L t = [(''Authorization'', ''Bearer '' @ py_str (repr L) t)]"

text \<open>
  A caller that invokes methods of one client one after the other and goes on
  after an exception.  The session keeps, beside the client and the world,
  \<^item> \<open>granted\<close>: the \<open>access_token\<close> of the response of the most recent
    \<open>authenticate\<close> that succeeded;
  \<^item> \<open>torn\<close>: the \<open>access_token\<close> that the most recent \<open>authenticate\<close> to
    read one from its response has read, when that call then raised (its
    response had no \<open>'refresh_token'\<close>); \<open>None\<close> when that call succeeded
    or no call has read one.  A call that raises before it reads a token
    (transport error, no \<open>'access_token'\<close>) leaves both as they are.
\<close>

datatype call = Authenticate | Get string | Post string json

record 's session =
  the_client :: client
  the_world :: "'s world"
  granted :: "json option"
  torn :: "json option"

definition token_response :: "'s libs \<Rightarrow> client \<Rightarrow> 's world \<Rightarrow> py_error + json" where
  "token_response L c w = fst (transport L (server w) (token_request c))"

definition token_read :: "py_error + json \<Rightarrow> json option" where
  "token_read resp =
     (case resp of
        Inl e \<Rightarrow> None
      | Inr r \<Rightarrow> (case subscript r ''access_token'' of Inl e \<Rightarrow> None | Inr a \<Rightarrow> Some a))"

fun invoke :: "'s libs \<Rightarrow> call \<Rightarrow> 's session \<Rightarrow> 's session" where
  "invoke L Authenticate S =
     (case authenticate L (the_client S) (the_world S) of
        (r, c', w') \<Rightarrow>
          (let t = token_read (token_response L (the_client S) (the_world S)) in
           S\<lparr>the_client := c', the_world := w',
             granted := (case r of Inl e \<Rightarrow> granted S | Inr x \<Rightarrow> t),
             torn := (case r of
                        Inl e \<Rightarrow> (case t of None \<Rightarrow> torn S | Some a \<Rightarrow> t)
                      | Inr x \<Rightarrow> None)\<rparr>))"
| "invoke L (Get u) S = S\<lparr>the_world := snd (get L (the_client S) u (the_world S))\<rparr>"
| "invoke L (Post u b) S = S\<lparr>the_world := snd (post L (the_client S) u b (the_world S))\<rparr>"

definition invoke_all :: "'s libs \<Rightarrow> call list \<Rightarrow> 's session \<Rightarrow> 's session" where
  "invoke_all L cs S = foldl (\<lambda>S' x. invoke L x S') S cs"

definition new_session :: "client \<Rightarrow> 's world \<Rightarrow> 's session" where
  "new_session c w = \<lparr>the_client = c, the_world = w, granted = None, torn = None\<rparr>"

text \<open>
  What a session maintains: the client's access token is the torn one if
  there is one, and the granted one otherwise.
\<close>

definition token_kept :: "'s session \<Rightarrow> bool" where
  "token_kept S \<longleftrightarrow>
     (case torn S of
        Some b \<Rightarrow> access_token (the_client S) = b
      | None \<Rightarrow> (case granted S of
                   Some g \<Rightarrow> access_token (the_client S) = g
                 | None \<Rightarrow> True))"

section \<open>A server to run the client against\<close>

text \<open>
  A server whose state counts the requests it has answered.  It hands out
  tokens, accepts a task as number 5, reports it complete once it has answered
  four requests and returns two results.  Its second and later token
  responses lack the refresh token.
\<close>

definition demo_transport :: "nat \<Rightarrow> request \<Rightarrow> (py_error + json) \<times> nat" where
  "demo_transport s rq =
     (if url rq = ''http://x/api/token/user'' then
        (if s = 0 then
           Inr (JObj [(''access_token'', JStr ''A''), (''refresh_token'', JStr ''R'')])
         else Inr (JObj [(''access_token'', JStr ''B'')]))
      else if url rq = ''http://x/api/task'' then Inr (JObj [(''id'', JInt 5)])
      else if url rq = ''http://x/api/task/5'' then Inr (JObj [(''complete'', JBool (4 \<le> s))])
      else if url rq = ''http://x/api/task/5?include=results'' then
        Inr (JObj [(''results'',
               JList [JObj [(''result'', JStr ''[1]'')], JObj [(''result'', JStr ''null'')]])])
      else Inl RequestException,
      Suc s)"

definition demo_loads :: "string \<Rightarrow> py_error + json" where
  "demo_loads s =
     (if s = ''null'' then Inr JNull
      else if s = ''[1]'' then Inr (JList [JInt 1])
      else Inl JSONDecodeError)"

definition demo :: "nat libs" where
  "demo = \<lparr>transport = demo_transport, loads = demo_loads, repr = (\<lambda>v. ''?'')\<rparr>"

text \<open>The same server handing out another refresh token.\<close>

definition demo_rotated :: "nat libs" where
  "demo_rotated =
     demo\<lparr>transport := (\<lambda>s rq.
        if url rq = ''http://x/api/token/user'' then
          (Inr (JObj [(''access_token'', JStr ''A''), (''refresh_token'', JStr ''Q'')]), Suc s)
        else demo_transport s rq)\<rparr>"

text \<open>The same server with the token endpoint unreachable after its first answer.\<close>

definition demo_down :: "nat libs" where
  "demo_down =
     demo\<lparr>transport := (\<lambda>s rq.
        if url rq = ''http://x/api/token/user'' \<and> 0 < s then (Inl RequestException, Suc s)
        else demo_transport s rq)\<rparr>"

text \<open>A server on which the task never completes.\<close>

definition stuck :: "nat libs" where
  "stuck = \<lparr>transport = (\<lambda>s rq. (Inr (JObj [(''complete'', JBool False)]), Suc s)),
             loads = demo_loads, repr = (\<lambda>v. ''?'')\<rparr>"

definition world0 :: "nat world" where
  "world0 = \<lparr>server = 0, exchanges = [], stdout = [], slept = 0\<rparr>"

definition client0 :: client where
  "client0 = Client ''http://x'' (JInt 1) (JStr ''u'') (JStr ''p'') ''/api''"

section \<open>What a call adds to the exchanges\<close>

lemma send_exchanges:
  "send L rq w = (resp, w') \<Longrightarrow>
     exchanges w' = exchanges w @ [(rq, resp)] \<and> transport L (server w) rq = (resp, server w')
     \<and> stdout w' = stdout w \<and> slept w' = slept w"
  by (auto simp: send_def split: prod.splits)

lemma pending_not_complete: "reports_pending resp \<Longrightarrow> \<not> reports_complete resp"
  by (auto simp: reports_pending_def reports_complete_def split: sum.splits)

lemma poll_trace:
  "poll n L c path w = (out, w') \<Longrightarrow>
    \<exists>xs tl. exchanges w' = exchanges w @ xs @ tl
      \<and> (\<forall>x\<in>set xs. fst x = get_request L c path \<and> reports_pending (snd x))
      \<and> ((out = None \<and> tl = [] \<and> length xs = n)
         \<or> (\<exists>e resp. out = Some (Inl e) \<and> tl = [(get_request L c path, resp)]
               \<and> \<not> reports_pending resp \<and> \<not> reports_complete resp)
         \<or> (\<exists>resp. out = Some (Inr ()) \<and> tl = [(get_request L c path, resp)]
               \<and> reports_complete resp))"
proof (induction n arbitrary: w)
  case 0
  then show ?case by simp
next
  case (Suc n)
  obtain resp w1 where g: "get L c path w = (resp, w1)" by (cases "get L c path w")
  then have ex1: "exchanges w1 = exchanges w @ [(get_request L c path, resp)]"
    by (simp add: get_def send_exchanges)
  show ?case
  proof (cases "reports_pending resp")
    case True
    then have "poll (Suc n) L c path w = poll n L c path (sleep 5 (print ''.'' w1))"
      using g by (auto simp: reports_pending_def split: sum.splits)
    with Suc.prems have p: "poll n L c path (sleep 5 (print ''.'' w1)) = (out, w')" by simp
    from Suc.IH[OF p] obtain xs tl where
      h: "exchanges w' = exchanges (sleep 5 (print ''.'' w1)) @ xs @ tl"
         "\<forall>x\<in>set xs. fst x = get_request L c path \<and> reports_pending (snd x)"
         "(out = None \<and> tl = [] \<and> length xs = n)
         \<or> (\<exists>e resp. out = Some (Inl e) \<and> tl = [(get_request L c path, resp)]
               \<and> \<not> reports_pending resp \<and> \<not> reports_complete resp)
         \<or> (\<exists>resp. out = Some (Inr ()) \<and> tl = [(get_request L c path, resp)]
               \<and> reports_complete resp)"
      by blast
    let ?xs = "(get_request L c path, resp) # xs"
    have "exchanges w' = exchanges w @ ?xs @ tl"
      using h(1) ex1 by (simp add: sleep_def print_def)
    moreover have "\<forall>x\<in>set ?xs. fst x = get_request L c path \<and> reports_pending (snd x)"
      using h(2) True by simp
    moreover have "(out = None \<and> tl = [] \<and> length ?xs = Suc n)
         \<or> (\<exists>e resp. out = Some (Inl e) \<and> tl = [(get_request L c path, resp)]
               \<and> \<not> reports_pending resp \<and> \<not> reports_complete resp)
         \<or> (\<exists>resp. out = Some (Inr ()) \<and> tl = [(get_request L c path, resp)]
               \<and> reports_complete resp)"
      using h(3) by auto
    ultimately show ?thesis by blast
  next
    case False
    show ?thesis
    proof (cases "reports_complete resp")
      case True
      then have "poll (Suc n) L c path w = (Some (Inr ()), w1)"
        using g by (auto simp: reports_complete_def split: sum.splits)
      with Suc.prems have "out = Some (Inr ())" "w' = w1" by simp_all
      then have "exchanges w' = exchanges w @ [] @ [(get_request L c path, resp)]"
        using ex1 by simp
      then show ?thesis using True \<open>out = Some (Inr ())\<close> by fastforce
    next
      case nc: False
      from False nc have "\<exists>e. poll (Suc n) L c path w = (Some (Inl e), w1)"
        using g by (auto simp: reports_complete_def reports_pending_def split: sum.splits)
      with Suc.prems obtain e where "out = Some (Inl e)" "w' = w1" by auto
      then have "exchanges w' = exchanges w @ [] @ [(get_request L c path, resp)]"
        using ex1 by simp
      then show ?thesis using False nc \<open>out = Some (Inl e)\<close> by fastforce
    qed
  qed
qed

lemma fetch_results_trace:
  "fetch_results L c path w = (r, w') \<Longrightarrow>
     \<exists>resp. exchanges w' = exchanges w @ [(get_request L c (path @ ''?include=results''), resp)]"
proof -
  assume a: "fetch_results L c path w = (r, w')"
  obtain resp w1 where g: "get L c (path @ ''?include=results'') (print [CHR 0x0A] w) = (resp, w1)"
    by (cases "get L c (path @ ''?include=results'') (print [CHR 0x0A] w)")
  then have "exchanges w1 = exchanges w @ [(get_request L c (path @ ''?include=results''), resp)]"
    by (auto simp: get_def print_def dest: send_exchanges)
  moreover have "w' = w1"
    using a g by (auto simp: fetch_results_def split: sum.splits)
  ultimately show ?thesis by blast
qed

lemma poll_never_complete:
  assumes step: "\<forall>s. I s \<longrightarrow> (\<exists>r flag s'. transport L s (get_request L c path) = (Inr r, s')
                    \<and> subscript r ''complete'' = Inr flag \<and> \<not> truthy flag \<and> I s')"
  shows "I (server w) \<Longrightarrow>
     \<exists>w'. poll n L c path w = (None, w') \<and> I (server w')
       \<and> map fst (exchanges w') = map fst (exchanges w) @ replicate n (get_request L c path)
       \<and> slept w' = slept w + 5 * n"
proof (induction n arbitrary: w)
  case 0
  then show ?case by simp
next
  case (Suc n)
  from step Suc.prems obtain r flag s' where
    t: "transport L (server w) (get_request L c path) = (Inr r, s')"
       "subscript r ''complete'' = Inr flag" "\<not> truthy flag" "I s'"
    by blast
  let ?w1 = "w\<lparr>server := s', exchanges := exchanges w @ [(get_request L c path, Inr r)]\<rparr>"
  have g: "get L c path w = (Inr r, ?w1)"
    using t(1) by (simp add: get_def send_def)
  let ?w2 = "sleep 5 (print ''.'' ?w1)"
  have "I (server ?w2)" using t(4) by (simp add: sleep_def print_def)
  from Suc.IH[OF this] obtain w' where
    h: "poll n L c path ?w2 = (None, w')" "I (server w')"
       "map fst (exchanges w') = map fst (exchanges ?w2) @ replicate n (get_request L c path)"
       "slept w' = slept ?w2 + 5 * n"
    by blast
  have "poll (Suc n) L c path w = (None, w')"
    using g t(2,3) h(1) by simp
  moreover have "map fst (exchanges w') = map fst (exchanges w) @ replicate (Suc n) (get_request L c path)"
    using h(3) by (simp add: sleep_def print_def replicate_append_same)
  moreover have "slept w' = slept w + 5 * Suc n"
    using h(4) by (simp add: sleep_def print_def)
  ultimately show ?case using h(2) by blast
qed

text \<open>A call that has returned or raised does the same with any more fuel.\<close>

lemma poll_more_fuel:
  "poll n L c path w = (Some r, w') \<Longrightarrow> poll (n + k) L c path w = (Some r, w')"
proof (induction n arbitrary: w)
  case 0
  then show ?case by simp
next
  case (Suc n)
  show ?case
  proof (cases "get L c path w")
    case (Pair resp w1)
    show ?thesis
    proof (cases "reports_pending resp")
      case True
      then have "poll (Suc n) L c path w = poll n L c path (sleep 5 (print ''.'' w1))"
        and "poll (Suc n + k) L c path w = poll (n + k) L c path (sleep 5 (print ''.'' w1))"
        using Pair by (auto simp: reports_pending_def split: sum.splits)
      then show ?thesis using Suc by simp
    next
      case False
      then have "poll (Suc n + k) L c path w = poll (Suc n) L c path w"
        using Pair by (auto simp: reports_pending_def split: sum.splits)
      then show ?thesis using Suc.prems by simp
    qed
  qed
qed

lemma wait_for_results_more_fuel:
  "wait_for_results n L c task_id w = (Some r, w') \<Longrightarrow>
     wait_for_results (n + k) L c task_id w = (Some r, w')"
proof -
  assume a: "wait_for_results n L c task_id w = (Some r, w')"
  obtain o1 w1 where p: "poll n L c (task_path L task_id) w = (o1, w1)"
    by (cases "poll n L c (task_path L task_id) w")
  with a obtain r1 where "o1 = Some r1"
    by (cases o1) (auto simp: wait_for_results_def)
  with p have "poll (n + k) L c (task_path L task_id) w = (Some r1, w1)"
    using poll_more_fuel by blast
  with a p \<open>o1 = Some r1\<close> show ?thesis by (simp add: wait_for_results_def)
qed

lemma poll_requests:
  assumes "poll n L c path w = (out, w')"
  shows "\<exists>new. exchanges w' = exchanges w @ new \<and> (\<forall>x\<in>set new. fst x = get_request L c path)"
proof -
  from poll_trace[OF assms] obtain xs tl where
    h: "exchanges w' = exchanges w @ xs @ tl"
    "\<forall>x\<in>set xs. fst x = get_request L c path \<and> reports_pending (snd x)"
    "(out = None \<and> tl = [] \<and> length xs = n)
         \<or> (\<exists>e resp. out = Some (Inl e) \<and> tl = [(get_request L c path, resp)]
               \<and> \<not> reports_pending resp \<and> \<not> reports_complete resp)
         \<or> (\<exists>resp. out = Some (Inr ()) \<and> tl = [(get_request L c path, resp)]
               \<and> reports_complete resp)"
    by blast
  from h(3) have t: "tl = [] \<or> (\<exists>resp. tl = [(get_request L c path, resp)])" by blast
  have "\<forall>x\<in>set (xs @ tl). fst x = get_request L c path"
  proof
    fix x assume "x \<in> set (xs @ tl)"
    then have "x \<in> set xs \<or> x \<in> set tl" by simp
    then show "fst x = get_request L c path"
    proof
      assume "x \<in> set xs" then show ?thesis using h(2) by simp
    next
      assume "x \<in> set tl" then show ?thesis using t by auto
    qed
  qed
  moreover have "exchanges w' = exchanges w @ (xs @ tl)" using h(1) by simp
  ultimately show ?thesis by blast
qed

lemma json_loads_Inr:
  "json_loads L s = Inr v \<longleftrightarrow> (\<exists>str. s = JStr str \<and> loads L str = Inr v)"
  by (cases s) auto

lemma load_results_sound:
  "load_results L es = Inr vs \<Longrightarrow>
     list_all2 (\<lambda>e v. \<exists>str. subscript e ''result'' = Inr (JStr str) \<and> loads L str = Inr v) es vs"
proof (induction es arbitrary: vs)
  case Nil
  then show ?case by simp
next
  case (Cons e es)
  from Cons.prems obtain s v vs' where
    a: "subscript e ''result'' = Inr s" "json_loads L s = Inr v"
       "load_results L es = Inr vs'" "vs = v # vs'"
    by (auto split: sum.splits)
  from a(2) obtain str where "s = JStr str" "loads L str = Inr v"
    using json_loads_Inr by blast
  then show ?case using a Cons.IH[of vs'] by simp
qed

lemma load_results_complete:
  "list_all2 (\<lambda>e v. \<exists>str. subscript e ''result'' = Inr (JStr str) \<and> loads L str = Inr v) es vs
     \<Longrightarrow> load_results L es = Inr vs"
proof (induction es arbitrary: vs)
  case Nil
  then show ?case by simp
next
  case (Cons e es)
  from Cons.prems obtain v vs' str where
    a: "vs = v # vs'" "subscript e ''result'' = Inr (JStr str)" "loads L str = Inr v"
       "list_all2 (\<lambda>e v. \<exists>str. subscript e ''result'' = Inr (JStr str) \<and> loads L str = Inr v) es vs'"
    by (auto simp: list_all2_Cons1)
  from Cons.IH[OF a(4)] have "load_results L es = Inr vs'" .
  then show ?case using a(1,2,3) by simp
qed

lemma load_results_all2:
  "load_results L es = Inr vs \<longleftrightarrow>
     list_all2 (\<lambda>e v. \<exists>str. subscript e ''result'' = Inr (JStr str) \<and> loads L str = Inr v) es vs"
  using load_results_sound load_results_complete by blast

lemma authenticate_exchange:
  "authenticate L c w = (r, c', w') \<Longrightarrow>
     exchanges w' = exchanges w @ [(token_request c, token_response L c w)]
     \<and> server w' = snd (transport L (server w) (token_request c))
     \<and> stdout w' = stdout w \<and> slept w' = slept w"
  by (auto simp: authenticate_def send_def token_response_def split: prod.splits sum.splits)

lemma authenticate_success:
  "authenticate L c w = (Inr (), c', w') \<longleftrightarrow>
     (\<exists>resp a f. transport L (server w) (token_request c) = (Inr resp, server w')
        \<and> w' = w\<lparr>server := server w', exchanges := exchanges w @ [(token_request c, Inr resp)]\<rparr>
        \<and> subscript resp ''access_token'' = Inr a \<and> subscript resp ''refresh_token'' = Inr f
        \<and> c' = c\<lparr>access_token := a, refresh_token := f\<rparr>)"
  by (auto simp: authenticate_def send_def split: prod.splits sum.splits)

lemma create_task_exchange:
  "create_task L c task w = (r, w') \<Longrightarrow>
     exchanges w' = exchanges w @ [(post_request L c ''/task'' task, r)]"
  by (auto simp: create_task_def post_def dest: send_exchanges)

lemma wait_for_results_requests:
  assumes "wait_for_results n L c task_id w = (out, w')"
  shows "\<exists>new. exchanges w' = exchanges w @ new
           \<and> (\<forall>x\<in>set new. meth (fst x) = GET \<and> headers (fst x) = auth_headers L c)"
proof -
  let ?p = "task_path L task_id"
  obtain o1 w1 where p: "poll n L c ?p w = (o1, w1)" by (cases "poll n L c ?p w")
  from poll_requests[OF p] obtain pn where
    pn: "exchanges w1 = exchanges w @ pn" "\<forall>x\<in>set pn. fst x = get_request L c ?p" by blast
  have pn': "\<forall>x\<in>set pn. meth (fst x) = GET \<and> headers (fst x) = auth_headers L c"
    using pn(2) by (simp add: get_request_def)
  show ?thesis
  proof (cases "o1 = Some (Inr ())")
    case False
    then have "w' = w1"
      using assms p by (cases o1) (auto simp: wait_for_results_def split: sum.splits)
    then show ?thesis using pn(1) pn' by blast
  next
    case True
    obtain r w2 where f: "fetch_results L c ?p w1 = (r, w2)" by (cases "fetch_results L c ?p w1")
    then have "w' = w2" using assms p True by (simp add: wait_for_results_def)
    moreover from fetch_results_trace[OF f] obtain resp where
      "exchanges w2 = exchanges w1 @ [(get_request L c (?p @ ''?include=results''), resp)]" by blast
    ultimately have "exchanges w' = exchanges w @ (pn @ [(get_request L c (?p @ ''?include=results''), resp)])"
      using pn(1) by simp
    moreover have "\<forall>x\<in>set (pn @ [(get_request L c (?p @ ''?include=results''), resp)]).
        meth (fst x) = GET \<and> headers (fst x) = auth_headers L c"
      using pn' by (simp add: get_request_def)
    ultimately show ?thesis by blast
  qed
qed

lemma get_request_refresh:
  "get_request L (c\<lparr>refresh_token := x\<rparr>) u = get_request L c u"
  by (simp add: get_request_def baseURL_def auth_headers_def)

lemma post_request_refresh:
  "post_request L (c\<lparr>refresh_token := x\<rparr>) u b = post_request L c u b"
  by (simp add: post_request_def baseURL_def auth_headers_def)

lemma get_refresh: "get L (c\<lparr>refresh_token := x\<rparr>) u w = get L c u w"
  by (simp add: get_def get_request_refresh)

lemma post_refresh: "post L (c\<lparr>refresh_token := x\<rparr>) u b w = post L c u b w"
  by (simp add: post_def post_request_refresh)

lemma poll_refresh: "poll n L (c\<lparr>refresh_token := x\<rparr>) path w = poll n L c path w"
  by (induction n arbitrary: w) (simp_all add: get_refresh split: prod.splits sum.splits)

lemma fetch_results_refresh:
  "fetch_results L (c\<lparr>refresh_token := x\<rparr>) path w = fetch_results L c path w"
  by (simp add: fetch_results_def get_refresh)

lemma wait_for_results_refresh:
  "wait_for_results n L (c\<lparr>refresh_token := x\<rparr>) task_id w = wait_for_results n L c task_id w"
  by (simp add: wait_for_results_def poll_refresh fetch_results_refresh split: prod.splits option.splits sum.splits)

lemma token_kept_new: "token_kept (new_session c w)"
  by (simp add: token_kept_def new_session_def)

lemma token_kept_invoke: "token_kept S \<Longrightarrow> token_kept (invoke L x S)"
proof (cases x)
  case Authenticate
  assume k: "token_kept S"
  obtain r c' w' where a: "authenticate L (the_client S) (the_world S) = (r, c', w')"
    by (cases "authenticate L (the_client S) (the_world S)") auto
  let ?t = "token_read (token_response L (the_client S) (the_world S))"
  show ?thesis
  proof (cases r)
    case (Inr x)
    then have "?t = Some (access_token c')"
      using a
      by (auto simp: authenticate_def send_def token_read_def token_response_def
          split: prod.splits sum.splits)
    then show ?thesis using a Inr Authenticate
      by (simp add: token_kept_def Let_def)
  next
    case (Inl e)
    show ?thesis
    proof (cases ?t)
      case None
      then have "c' = the_client S"
        using a
        by (auto simp: authenticate_def send_def token_read_def token_response_def
            split: prod.splits sum.splits)
      then show ?thesis using k a None Inl Authenticate
        by (auto simp: token_kept_def Let_def split: option.splits)
    next
      case (Some t)
      then have "access_token c' = t"
        using a
        by (auto simp: authenticate_def send_def token_read_def token_response_def
            split: prod.splits sum.splits)
      then show ?thesis using a Some Inl Authenticate
        by (simp add: token_kept_def Let_def)
    qed
  qed
next
  case (Get u)
  assume "token_kept S"
  then show ?thesis using Get by (simp add: token_kept_def split: option.splits)
next
  case (Post u b)
  assume "token_kept S"
  then show ?thesis using Post by (simp add: token_kept_def split: option.splits)
qed

lemma token_kept_foldl: "token_kept S \<Longrightarrow> token_kept (foldl (\<lambda>S' x. invoke L x S') S cs)"
  by (induction cs arbitrary: S) (simp_all add: token_kept_invoke)

lemma token_kept_invoke_all: "token_kept (invoke_all L cs (new_session c w))"
  unfolding invoke_all_def by (rule token_kept_foldl[OF token_kept_new])





section \<open>The polling loop\<close>




text \<open>
  Claim C5.  If every status response the server gives for the polled task
  carries a completion flag that tests false (in every server state reachable
  from the present one, described by an invariant \<open>I\<close>), then for every
  number \<open>n\<close> of iterations the loop is still running after \<open>n\<close> status
  GETs, and the results fetch is not among the requests issued.
\<close>

theorem never_complete_never_returns:
  assumes "I (server w)"
    and "\<forall>s. I s \<longrightarrow> (\<exists>r flag s'. transport L s (status_request L c task_id) = (Inr r, s')
                    \<and> subscript r ''complete'' = Inr flag \<and> \<not> truthy flag \<and> I s')"
  shows "\<exists>w'. wait_for_results n L c task_id w = (None, w')
       \<and> map fst (exchanges w') = map fst (exchanges w) @ replicate n (status_request L c task_id)
       \<and> results_request L c task_id \<notin> set (replicate n (status_request L c task_id))"
proof -
  from poll_never_complete[of I L c "task_path L task_id" w n] assms obtain w' where
    h: "poll n L c (task_path L task_id) w = (None, w')"
       "map fst (exchanges w') = map fst (exchanges w) @ replicate n (status_request L c task_id)"
    unfolding status_request_def by blast
  have "wait_for_results n L c task_id w = (None, w')"
    using h(1) by (simp add: wait_for_results_def)
  moreover have "status_request L c task_id \<noteq> results_request L c task_id"
    by (simp add: status_request_def results_request_def get_request_def)
  ultimately show ?thesis using h(2) by auto
qed

theorem never_complete_never_returns_witness:
  "fst (wait_for_results 7 stuck client0 (JInt 5) world0) = None
   \<and> map fst (exchanges (snd (wait_for_results 7 stuck client0 (JInt 5) world0)))
       = replicate 7 (status_request stuck client0 (JInt 5))"
proof -
  have "\<forall>s. True \<longrightarrow> (\<exists>r flag s'. transport stuck s (status_request stuck client0 (JInt 5)) = (Inr r, s')
                    \<and> subscript r ''complete'' = Inr flag \<and> \<not> truthy flag \<and> True)"
    by (simp add: stuck_def)
  from never_complete_never_returns[of "\<lambda>s. True" world0 stuck client0 "JInt 5" 7, OF TrueI this]
  show ?thesis by (auto simp: world0_def)
qed

section \<open>Deserialising the results\<close>

text \<open>
  Claim C3.  When the call has received a results response whose \<open>'results'\<close>
  field is a list of \<open>N\<close> entries, what it gives is the comprehension over
  these entries, and it returns a list \<open>vs\<close> exactly when \<open>vs\<close> has \<open>N\<close>
  elements and, for every position \<open>i\<close>, entry \<open>i\<close> has a string under
  \<open>'result'\<close> that \<open>json.loads\<close> parses to \<open>vs ! i\<close>: each value depends on
  its own entry alone, and the order is that of the response.  (An entry
  without such a string makes the whole call raise.)
\<close>

theorem results_parsed_in_order:
  assumes run: "wait_for_results n L c task_id w = (out, w')"
    and last: "exchanges w' = exchanges w @ new @ [(results_request L c task_id, Inr result)]"
    and res: "subscript result ''results'' = Inr (JList entries)"
  shows "out = Some (load_results L entries)
     \<and> (\<forall>vs. out = Some (Inr vs) \<longleftrightarrow>
           length vs = length entries
           \<and> (\<forall>i<length entries. \<exists>str. subscript (entries ! i) ''result'' = Inr (JStr str)
                                  \<and> loads L str = Inr (vs ! i)))"
proof -
  let ?p = "task_path L task_id"
  have ne: "get_request L c ?p \<noteq> results_request L c task_id"
    by (simp add: results_request_def get_request_def)
  obtain o1 w1 where p: "poll n L c ?p w = (o1, w1)" by (cases "poll n L c ?p w")
  from poll_requests[OF p] obtain pn where
    pn: "exchanges w1 = exchanges w @ pn" "\<forall>x\<in>set pn. fst x = get_request L c ?p" by blast
  have fin: "o1 = Some (Inr ())"
  proof (rule ccontr)
    assume "o1 \<noteq> Some (Inr ())"
    then have "w' = w1"
      using run p by (cases o1) (auto simp: wait_for_results_def split: sum.splits)
    then have "pn = new @ [(results_request L c task_id, Inr result)]"
      using pn(1) last by simp
    then show False using pn(2) ne by auto
  qed
  obtain resp w2 where g: "get L c (?p @ ''?include=results'') (print [CHR 0x0A] w1) = (resp, w2)"
    by (cases "get L c (?p @ ''?include=results'') (print [CHR 0x0A] w1)")
  then have ex2: "exchanges w2 = exchanges w1 @ [(results_request L c task_id, resp)]"
    by (auto simp: get_def print_def results_request_def dest: send_exchanges)
  have f: "fetch_results L c ?p w1 = (fst (fetch_results L c ?p w1), w2)"
    using g by (auto simp: fetch_results_def split: sum.splits)
  have "w' = w2" "out = Some (fst (fetch_results L c ?p w1))"
    using run p fin f by (auto simp: wait_for_results_def split: prod.splits)
  then have "resp = Inr result" using ex2 pn(1) last by simp
  then have "fst (fetch_results L c ?p w1) = load_results L entries"
    using g res by (simp add: fetch_results_def)
  then have o: "out = Some (load_results L entries)"
    using \<open>out = Some (fst (fetch_results L c ?p w1))\<close> by simp
  show ?thesis
    using o by (auto simp: load_results_all2 list_all2_conv_all_nth)
qed

theorem results_parsed_in_order_witness:
  "fst (wait_for_results 10 demo client0 (JInt 5) world0) = Some (Inr [JList [JInt 1], JNull])
   \<and> length [JList [JInt 1], JNull]
       = length [JObj [(''result'', JStr ''[1]'')], JObj [(''result'', JStr ''null'')]]
   \<and> loads demo ''[1]'' = Inr (JList [JInt 1]) \<and> loads demo ''null'' = Inr JNull"
proof -
  let ?r = "wait_for_results 10 demo client0 (JInt 5) world0"
  let ?entries = "[JObj [(''result'', JStr ''[1]'')], JObj [(''result'', JStr ''null'')]]"
  have a: "?r = (fst ?r, snd ?r)" by simp
  have b: "exchanges (snd ?r) = exchanges world0 @ butlast (exchanges (snd ?r))
             @ [(results_request demo client0 (JInt 5), Inr (JObj [(''results'', JList ?entries)]))]"
    by code_simp
  have c: "subscript (JObj [(''results'', JList ?entries)]) ''results'' = Inr (JList ?entries)"
    by simp
  from results_parsed_in_order[OF a b c]
  have "fst ?r = Some (load_results demo ?entries)" by simp
  moreover have "load_results demo ?entries = Inr [JList [JInt 1], JNull]" by code_simp
  moreover have "loads demo ''[1]'' = Inr (JList [JInt 1])" "loads demo ''null'' = Inr JNull"
    by (simp_all add: demo_def demo_loads_def)
  ultimately show ?thesis by simp
qed

section \<open>Requests of the unauthenticated and authenticated client\<close>

text \<open>
  Claim C4.  The URL \<open>get\<close> requests is host, API path and the given path
  concatenated; for host \<open>http://x\<close> and API path \<open>/api\<close>, \<open>get("/task/5")\<close>
  requests \<open>http://x/api/task/5\<close>.
\<close>

theorem get_targets_base_plus_url:
  "url (get_request L c u) = host c @ api_path c @ u
   \<and> url (get_request L (Client ''http://x'' cid usr pw ''/api'') ''/task/5'') = ''http://x/api/task/5''
   \<and> map (\<lambda>x. url (fst x)) (exchanges (snd (get L (Client ''http://x'' cid usr pw ''/api'') ''/task/5'' w)))
       = map (\<lambda>x. url (fst x)) (exchanges w) @ [''http://x/api/task/5'']"
  by (simp add: get_def send_def get_request_def baseURL_def Client_def split: prod.splits)

text \<open>
  Claim C10.  A freshly constructed client has \<open>None\<close> as its access token,
  and \<open>get\<close> and \<open>post\<close> on it check nothing: the request goes out with the
  header \<open>Authorization: Bearer None\<close>, and what the call gives or raises is
  what the transport gives or raises.
\<close>

theorem unauthenticated_get_post_sent:
  "access_token (Client h cid usr pw ap) = JNull
   \<and> headers (get_request L (Client h cid usr pw ap) u) = [(''Authorization'', ''Bearer None'')]
   \<and> headers (post_request L (Client h cid usr pw ap) u b) = [(''Authorization'', ''Bearer None'')]
   \<and> get L (Client h cid usr pw ap) u w = send L (get_request L (Client h cid usr pw ap) u) w
   \<and> exchanges (snd (get L (Client h cid usr pw ap) u w))
       = exchanges w @ [(get_request L (Client h cid usr pw ap) u,
                         fst (transport L (server w) (get_request L (Client h cid usr pw ap) u)))]
   \<and> fst (get L (Client h cid usr pw ap) u w)
       = fst (transport L (server w) (get_request L (Client h cid usr pw ap) u))
   \<and> exchanges (snd (post L (Client h cid usr pw ap) u b w))
       = exchanges w @ [(post_request L (Client h cid usr pw ap) u b,
                         fst (transport L (server w) (post_request L (Client h cid usr pw ap) u b)))]
   \<and> fst (post L (Client h cid usr pw ap) u b w)
       = fst (transport L (server w) (post_request L (Client h cid usr pw ap) u b))"
  by (simp add: get_def post_def send_def get_request_def post_request_def auth_headers_def
      Client_def split: prod.splits)

section \<open>Authentication\<close>

text \<open>
  Claim C7.  \<open>authenticate\<close> sends one POST to \<open>{host}{api_path}/token/user\<close>
  whose body is the dict of the client's \<open>username\<close> and \<open>password\<close>.  It
  succeeds exactly when the response is a dict with an \<open>'access_token'\<close> and a
  \<open>'refresh_token'\<close>, and then these two values are the client's
  \<open>access_token\<close> and \<open>refresh_token\<close>, its other attributes unchanged.
\<close>

theorem authenticate_posts_credentials_stores_tokens:
  assumes "authenticate L c w = (r, c', w')"
  shows "meth (token_request c) = POST
     \<and> url (token_request c) = host c @ api_path c @ ''/token/user''
     \<and> body (token_request c) = Some (JObj [(''username'', username c), (''password'', password c)])
     \<and> exchanges w' = exchanges w @ [(token_request c, token_response L c w)]
     \<and> (r = Inr () \<longleftrightarrow>
          (\<exists>resp a f. token_response L c w = Inr resp
             \<and> subscript resp ''access_token'' = Inr a \<and> subscript resp ''refresh_token'' = Inr f))
     \<and> (r = Inr () \<longrightarrow>
          (\<exists>resp. token_response L c w = Inr resp
             \<and> subscript resp ''access_token'' = Inr (access_token c')
             \<and> subscript resp ''refresh_token'' = Inr (refresh_token c')
             \<and> c' = c\<lparr>access_token := access_token c', refresh_token := refresh_token c'\<rparr>))"
proof -
  have 1: "meth (token_request c) = POST
     \<and> url (token_request c) = host c @ api_path c @ ''/token/user''
     \<and> body (token_request c) = Some (JObj [(''username'', username c), (''password'', password c)])"
    by (simp add: token_request_def)
  have 2: "exchanges w' = exchanges w @ [(token_request c, token_response L c w)]"
    using authenticate_exchange[OF assms] by simp
  have 3: "r = Inr () \<longleftrightarrow>
          (\<exists>resp a f. token_response L c w = Inr resp
             \<and> subscript resp ''access_token'' = Inr a \<and> subscript resp ''refresh_token'' = Inr f)"
    using assms
    by (auto simp: authenticate_def send_def token_response_def split: prod.splits sum.splits)
  have 4: "r = Inr () \<longrightarrow>
          (\<exists>resp. token_response L c w = Inr resp
             \<and> subscript resp ''access_token'' = Inr (access_token c')
             \<and> subscript resp ''refresh_token'' = Inr (refresh_token c')
             \<and> c' = c\<lparr>access_token := access_token c', refresh_token := refresh_token c'\<rparr>)"
    using assms
    by (auto simp: authenticate_def send_def token_response_def split: prod.splits sum.splits)
  from 1 2 3 4 show ?thesis by blast
qed

theorem authenticate_posts_credentials_stores_tokens_witness:
  "authenticate demo client0 world0
     = (Inr (), client0\<lparr>access_token := JStr ''A'', refresh_token := JStr ''R''\<rparr>,
        world0\<lparr>server := 1,
               exchanges := [(token_request client0,
                  Inr (JObj [(''access_token'', JStr ''A''), (''refresh_token'', JStr ''R'')]))]\<rparr>)
   \<and> url (token_request client0) = ''http://x/api/token/user''
   \<and> body (token_request client0) = Some (JObj [(''username'', JStr ''u''), (''password'', JStr ''p'')])
   \<and> token_response demo client0 world0
       = Inr (JObj [(''access_token'', JStr ''A''), (''refresh_token'', JStr ''R'')])"
proof -
  have a: "authenticate demo client0 world0
     = (Inr (), client0\<lparr>access_token := JStr ''A'', refresh_token := JStr ''R''\<rparr>,
        world0\<lparr>server := 1,
               exchanges := [(token_request client0,
                  Inr (JObj [(''access_token'', JStr ''A''), (''refresh_token'', JStr ''R'')]))]\<rparr>)"
    by (simp add: authenticate_def send_def demo_def demo_transport_def token_request_def
        client0_def Client_def world0_def)
  have b: "token_response demo client0 world0
       = Inr (JObj [(''access_token'', JStr ''A''), (''refresh_token'', JStr ''R'')])"
    by (simp add: token_response_def demo_def demo_transport_def token_request_def
        client0_def Client_def world0_def)
  from authenticate_posts_credentials_stores_tokens[OF a] a b show ?thesis
    by (simp add: client0_def Client_def)
qed

text \<open>
  Claim C6.  In every execution of \<open>run\<close> the first request is the token
  request; any further request is there only if the token response had an
  \<open>'access_token'\<close> and a \<open>'refresh_token'\<close>, that is if \<open>authenticate\<close>
  succeeded, and each of them carries that access token as its bearer.
\<close>

theorem run_authenticates_first:
  assumes "run n L h ap u p cid w = (out, w')"
  shows "\<exists>resp rest.
      exchanges w' = exchanges w @ (token_request (Client h cid u p ap), resp) # rest
    \<and> (rest \<noteq> [] \<longrightarrow>
         (\<exists>r a f. resp = Inr r \<and> subscript r ''access_token'' = Inr a
             \<and> subscript r ''refresh_token'' = Inr f
             \<and> (\<forall>x\<in>set rest. headers (fst x) = bearer L a)))"
proof -
  let ?c = "Client h cid u p ap"
  obtain r c1 w1 where a: "authenticate L ?c w = (r, c1, w1)"
    by (cases "authenticate L ?c w") auto
  from authenticate_exchange[OF a]
  have e1: "exchanges w1 = exchanges w @ [(token_request ?c, token_response L ?c w)]" by simp
  show ?thesis
  proof (cases r)
    case (Inl e)
    then have "w' = w1" using assms a by (simp add: run_def)
    then have "exchanges w' = exchanges w @ (token_request ?c, token_response L ?c w) # []"
      using e1 by simp
    then show ?thesis by blast
  next
    case (Inr x)
    then have ok: "authenticate L ?c w = (Inr (), c1, w1)" using a by simp
    then obtain rj tok f where
      s: "transport L (server w) (token_request ?c) = (Inr rj, server w1)"
         "subscript rj ''access_token'' = Inr tok" "subscript rj ''refresh_token'' = Inr f"
         "c1 = ?c\<lparr>access_token := tok, refresh_token := f\<rparr>"
      unfolding authenticate_success by blast
    have tr: "token_response L ?c w = Inr rj" using s(1) by (simp add: token_response_def)
    have hd: "auth_headers L c1 = bearer L tok"
      using s(4) by (simp add: auth_headers_def bearer_def)
    obtain r2 w2 where ct: "create_task L c1 (task_of h ap cid) w1 = (r2, w2)"
      by (cases "create_task L c1 (task_of h ap cid) w1")
    from create_task_exchange[OF ct]
    have e2: "exchanges w2 = exchanges w1 @ [(post_request L c1 ''/task'' (task_of h ap cid), r2)]" .
    have "\<exists>rest. exchanges w' = exchanges w1 @ rest \<and> (\<forall>x\<in>set rest. headers (fst x) = bearer L tok)"
    proof (cases "\<exists>response task_id. r2 = Inr response \<and> subscript response ''id'' = Inr task_id")
      case False
      then have "w' = w2"
        using assms ok ct by (auto simp: run_def split: sum.splits)
      then have "exchanges w' = exchanges w1 @ [(post_request L c1 ''/task'' (task_of h ap cid), r2)]"
        using e2 by simp
      moreover have "\<forall>x\<in>set [(post_request L c1 ''/task'' (task_of h ap cid), r2)].
          headers (fst x) = bearer L tok"
        using hd by (simp add: post_request_def)
      ultimately show ?thesis by blast
    next
      case True
      then obtain response task_id where
        i: "r2 = Inr response" "subscript response ''id'' = Inr task_id" by blast
      then have "wait_for_results n L c1 task_id w2 = (out, w')"
        using assms ok ct by (simp add: run_def)
      from wait_for_results_requests[OF this] obtain new where
        n: "exchanges w' = exchanges w2 @ new"
           "\<forall>x\<in>set new. meth (fst x) = GET \<and> headers (fst x) = auth_headers L c1" by blast
      have "exchanges w' = exchanges w1 @ ((post_request L c1 ''/task'' (task_of h ap cid), r2) # new)"
        using n(1) e2 by simp
      moreover have "\<forall>x\<in>set ((post_request L c1 ''/task'' (task_of h ap cid), r2) # new).
          headers (fst x) = bearer L tok"
        using n(2) hd by (simp add: post_request_def)
      ultimately show ?thesis by blast
    qed
    then obtain rest where
      r: "exchanges w' = exchanges w1 @ rest" "\<forall>x\<in>set rest. headers (fst x) = bearer L tok" by blast
    have "exchanges w' = exchanges w @ (token_request ?c, Inr rj) # rest"
      using r(1) e1 tr by simp
    then show ?thesis using r(2) s(2,3) by blast
  qed
qed

theorem run_authenticates_first_witness:
  "fst (run 10 demo ''http://x'' ''/api'' (JStr ''u'') (JStr ''p'') (JInt 1) world0)
     = Some (Inr [JList [JInt 1], JNull])
   \<and> map (\<lambda>x. (url (fst x), headers (fst x)))
        (exchanges (snd (run 10 demo ''http://x'' ''/api'' (JStr ''u'') (JStr ''p'') (JInt 1) world0)))
     = [(''http://x/api/token/user'', []),
        (''http://x/api/task'', [(''Authorization'', ''Bearer A'')]),
        (''http://x/api/task/5'', [(''Authorization'', ''Bearer A'')]),
        (''http://x/api/task/5'', [(''Authorization'', ''Bearer A'')]),
        (''http://x/api/task/5'', [(''Authorization'', ''Bearer A'')]),
        (''http://x/api/task/5?include=results'', [(''Authorization'', ''Bearer A'')])]
   \<and> (\<exists>resp rest.
        exchanges (snd (run 10 demo ''http://x'' ''/api'' (JStr ''u'') (JStr ''p'') (JInt 1) world0))
          = exchanges world0 @ (token_request (Client ''http://x'' (JInt 1) (JStr ''u'') (JStr ''p'') ''/api''), resp) # rest
        \<and> rest \<noteq> []
        \<and> (\<exists>r a f. resp = Inr r \<and> subscript r ''access_token'' = Inr a
             \<and> subscript r ''refresh_token'' = Inr f
             \<and> (\<forall>x\<in>set rest. headers (fst x) = bearer demo a)))"
proof -
  let ?r = "run 10 demo ''http://x'' ''/api'' (JStr ''u'') (JStr ''p'') (JInt 1) world0"
  have v: "fst ?r = Some (Inr [JList [JInt 1], JNull])" by code_simp
  have m: "map (\<lambda>x. (url (fst x), headers (fst x))) (exchanges (snd ?r))
     = [(''http://x/api/token/user'', []),
        (''http://x/api/task'', [(''Authorization'', ''Bearer A'')]),
        (''http://x/api/task/5'', [(''Authorization'', ''Bearer A'')]),
        (''http://x/api/task/5'', [(''Authorization'', ''Bearer A'')]),
        (''http://x/api/task/5'', [(''Authorization'', ''Bearer A'')]),
        (''http://x/api/task/5?include=results'', [(''Authorization'', ''Bearer A'')])]"
    by code_simp
  have "?r = (fst ?r, snd ?r)" by simp
  from run_authenticates_first[OF this] obtain resp rest where
    h: "exchanges (snd ?r) = exchanges world0 @ (token_request (Client ''http://x'' (JInt 1) (JStr ''u'') (JStr ''p'') ''/api''), resp) # rest"
       "rest \<noteq> [] \<longrightarrow>
         (\<exists>r a f. resp = Inr r \<and> subscript r ''access_token'' = Inr a
             \<and> subscript r ''refresh_token'' = Inr f
             \<and> (\<forall>x\<in>set rest. headers (fst x) = bearer demo a))"
    by blast
  have "length (exchanges (snd ?r)) = 6" by code_simp
  then have ne: "rest \<noteq> []" using h(1) by (auto simp: world0_def)
  with h(2) have big: "\<exists>r a f. resp = Inr r \<and> subscript r ''access_token'' = Inr a
             \<and> subscript r ''refresh_token'' = Inr f
             \<and> (\<forall>x\<in>set rest. headers (fst x) = bearer demo a)" by simp
  have ex: "\<exists>resp rest.
        exchanges (snd ?r)
          = exchanges world0 @ (token_request (Client ''http://x'' (JInt 1) (JStr ''u'') (JStr ''p'') ''/api''), resp) # rest
        \<and> rest \<noteq> []
        \<and> (\<exists>r a f. resp = Inr r \<and> subscript r ''access_token'' = Inr a
             \<and> subscript r ''refresh_token'' = Inr f
             \<and> (\<forall>x\<in>set rest. headers (fst x) = bearer demo a))"
    using h(1) ne big by blast
  show ?thesis by (rule conjI[OF v conjI[OF m ex]])
qed

text \<open>
  Claim C8.  The refresh token is stored and never read.  Take two runs in
  which \<open>authenticate\<close> succeeds on the same client with token responses
  that carry the same access token (and any refresh tokens).  The clients that
  result differ in the \<open>refresh_token\<close> attribute only, and from there on
  \<open>get\<close>, \<open>post\<close>, \<open>create_task\<close> and \<open>wait_for_results\<close> build the same
  requests (URL, headers, body) and behave the same in every world.
\<close>

theorem refresh_token_never_used:
  assumes "authenticate L1 c w1 = (Inr (), c1, w1')"
    and "authenticate L2 c w2 = (Inr (), c2, w2')"
    and "token_read (token_response L1 c w1) = token_read (token_response L2 c w2)"
  shows "c2 = c1\<lparr>refresh_token := refresh_token c2\<rparr>
     \<and> get_request L c2 u = get_request L c1 u
     \<and> post_request L c2 u b = post_request L c1 u b
     \<and> get L c2 u w = get L c1 u w
     \<and> post L c2 u b w = post L c1 u b w
     \<and> create_task L c2 b w = create_task L c1 b w
     \<and> wait_for_results n L c2 task_id w = wait_for_results n L c1 task_id w"
proof -
  from assms(1) obtain r1 a1 f1 where
    h1: "transport L1 (server w1) (token_request c) = (Inr r1, server w1')"
        "subscript r1 ''access_token'' = Inr a1" "c1 = c\<lparr>access_token := a1, refresh_token := f1\<rparr>"
    unfolding authenticate_success by blast
  from assms(2) obtain r2 a2 f2 where
    h2: "transport L2 (server w2) (token_request c) = (Inr r2, server w2')"
        "subscript r2 ''access_token'' = Inr a2" "c2 = c\<lparr>access_token := a2, refresh_token := f2\<rparr>"
    unfolding authenticate_success by blast
  have "token_read (token_response L1 c w1) = Some a1"
    using h1(1,2) by (simp add: token_read_def token_response_def)
  moreover have "token_read (token_response L2 c w2) = Some a2"
    using h2(1,2) by (simp add: token_read_def token_response_def)
  ultimately have "a1 = a2" using assms(3) by simp
  then have e: "c2 = c1\<lparr>refresh_token := refresh_token c2\<rparr>"
    using h1(3) h2(3) by simp
  have "get_request L (c1\<lparr>refresh_token := refresh_token c2\<rparr>) u = get_request L c1 u"
    by (rule get_request_refresh)
  moreover have "post_request L (c1\<lparr>refresh_token := refresh_token c2\<rparr>) u b = post_request L c1 u b"
    by (rule post_request_refresh)
  moreover have "get L (c1\<lparr>refresh_token := refresh_token c2\<rparr>) u w = get L c1 u w"
    by (rule get_refresh)
  moreover have "post L (c1\<lparr>refresh_token := refresh_token c2\<rparr>) u b w = post L c1 u b w"
    by (rule post_refresh)
  moreover have "create_task L (c1\<lparr>refresh_token := refresh_token c2\<rparr>) b w = create_task L c1 b w"
    by (simp add: create_task_def post_refresh)
  moreover have "wait_for_results n L (c1\<lparr>refresh_token := refresh_token c2\<rparr>) task_id w
      = wait_for_results n L c1 task_id w"
    by (rule wait_for_results_refresh)
  ultimately show ?thesis using e by metis
qed

theorem refresh_token_never_used_witness:
  "authenticate demo client0 world0
     = (Inr (), client0\<lparr>access_token := JStr ''A'', refresh_token := JStr ''R''\<rparr>,
        snd (snd (authenticate demo client0 world0)))
   \<and> authenticate demo_rotated client0 world0
     = (Inr (), client0\<lparr>access_token := JStr ''A'', refresh_token := JStr ''Q''\<rparr>,
        snd (snd (authenticate demo_rotated client0 world0)))
   \<and> get_request demo (client0\<lparr>access_token := JStr ''A'', refresh_token := JStr ''Q''\<rparr>) ''/task/5''
     = get_request demo (client0\<lparr>access_token := JStr ''A'', refresh_token := JStr ''R''\<rparr>) ''/task/5''
   \<and> wait_for_results 10 demo (client0\<lparr>access_token := JStr ''A'', refresh_token := JStr ''Q''\<rparr>)
         (JInt 5) world0
     = wait_for_results 10 demo (client0\<lparr>access_token := JStr ''A'', refresh_token := JStr ''R''\<rparr>)
         (JInt 5) world0"
proof -
  have a: "authenticate demo client0 world0
     = (Inr (), client0\<lparr>access_token := JStr ''A'', refresh_token := JStr ''R''\<rparr>,
        snd (snd (authenticate demo client0 world0)))"
    by (simp add: authenticate_def send_def demo_def demo_transport_def token_request_def
        client0_def Client_def world0_def)
  have b: "authenticate demo_rotated client0 world0
     = (Inr (), client0\<lparr>access_token := JStr ''A'', refresh_token := JStr ''Q''\<rparr>,
        snd (snd (authenticate demo_rotated client0 world0)))"
    by (simp add: authenticate_def send_def demo_rotated_def demo_def token_request_def
        client0_def Client_def world0_def)
  have c: "token_read (token_response demo client0 world0)
         = token_read (token_response demo_rotated client0 world0)"
    by (simp add: token_read_def token_response_def demo_rotated_def demo_def demo_transport_def
        token_request_def client0_def Client_def world0_def)
  from refresh_token_never_used[OF a b c, where L=demo and u="''/task/5''" and n=10 and task_id="JInt 5" and w=world0] a b
  show ?thesis by simp
qed

text \<open>
  Claim C2, amended.  On a client on which \<open>authenticate\<close> has succeeded,
  whatever calls of \<open>authenticate\<close>, \<open>get\<close> and \<open>post\<close> came before and
  after, the next \<open>get\<close> or \<open>post\<close> sends \<open>Authorization: Bearer <t>\<close> where
  \<open><t>\<close> is the access token of the response of the most recent successful
  \<open>authenticate\<close>, unless a call of \<open>authenticate\<close> after it raised after it
  had read an \<open>'access_token'\<close> from its response; then \<open><t>\<close> is the one
  read by the most recent such call.  A later \<open>authenticate\<close> that raises
  before it reads a token changes nothing.

  The claim as stated has no exception, and fails: \<open>authenticate\<close> assigns
  \<open>access_token\<close> before it reads \<open>'refresh_token'\<close>, so a call that raises
  on a response without a refresh token has already replaced the bearer.
\<close>

theorem bearer_is_last_granted_unless_torn:
  assumes "S = invoke_all L cs (new_session c w)" and "granted S = Some g"
  shows "headers (get_request L (the_client S) u)
           = bearer L (case torn S of None \<Rightarrow> g | Some b \<Rightarrow> b)
     \<and> headers (post_request L (the_client S) u b)
           = bearer L (case torn S of None \<Rightarrow> g | Some b \<Rightarrow> b)
     \<and> exchanges (the_world (invoke L (Get u) S))
           = exchanges (the_world S) @ [(get_request L (the_client S) u,
                fst (transport L (server (the_world S)) (get_request L (the_client S) u)))]
     \<and> exchanges (the_world (invoke L (Post u b) S))
           = exchanges (the_world S) @ [(post_request L (the_client S) u b,
                fst (transport L (server (the_world S)) (post_request L (the_client S) u b)))]"
proof -
  have k: "token_kept S" using assms(1) token_kept_invoke_all by simp
  have a: "access_token (the_client S) = (case torn S of None \<Rightarrow> g | Some b \<Rightarrow> b)"
    using k assms(2) by (simp add: token_kept_def split: option.splits)
  have 1: "headers (get_request L (the_client S) u)
           = bearer L (case torn S of None \<Rightarrow> g | Some b \<Rightarrow> b)"
    using a by (simp add: get_request_def auth_headers_def bearer_def)
  have 2: "headers (post_request L (the_client S) u b)
           = bearer L (case torn S of None \<Rightarrow> g | Some b \<Rightarrow> b)"
    using a by (simp add: post_request_def auth_headers_def bearer_def)
  have 3: "exchanges (the_world (invoke L (Get u) S))
           = exchanges (the_world S) @ [(get_request L (the_client S) u,
                fst (transport L (server (the_world S)) (get_request L (the_client S) u)))]"
    by (simp add: get_def send_def split: prod.splits)
  have 4: "exchanges (the_world (invoke L (Post u b) S))
           = exchanges (the_world S) @ [(post_request L (the_client S) u b,
                fst (transport L (server (the_world S)) (post_request L (the_client S) u b)))]"
    by (simp add: post_def send_def split: prod.splits)
  show ?thesis by (rule conjI[OF 1 conjI[OF 2 conjI[OF 3 4]]])
qed

text \<open>
  Two sessions.  In the first the second \<open>authenticate\<close> raises before it
  reads a token (the endpoint is down): the bearer stays the token \<open>A\<close> of
  the successful call.  In the second it raises after it has read \<open>B\<close>: the
  bearer is \<open>B\<close>.
\<close>

theorem bearer_is_last_granted_unless_torn_witness:
  "granted (invoke_all demo_down [Authenticate, Authenticate] (new_session client0 world0))
     = Some (JStr ''A'')
   \<and> torn (invoke_all demo_down [Authenticate, Authenticate] (new_session client0 world0)) = None
   \<and> headers (get_request demo_down
        (the_client (invoke_all demo_down [Authenticate, Authenticate] (new_session client0 world0)))
        ''/task/5'')
     = bearer demo_down (JStr ''A'')
   \<and> granted (invoke_all demo [Authenticate, Authenticate] (new_session client0 world0))
     = Some (JStr ''A'')
   \<and> torn (invoke_all demo [Authenticate, Authenticate] (new_session client0 world0))
     = Some (JStr ''B'')
   \<and> headers (get_request demo
        (the_client (invoke_all demo [Authenticate, Authenticate] (new_session client0 world0)))
        ''/task/5'')
     = bearer demo (JStr ''B'')"
proof -
  let ?S = "invoke_all demo_down [Authenticate, Authenticate] (new_session client0 world0)"
  let ?T = "invoke_all demo [Authenticate, Authenticate] (new_session client0 world0)"
  have g1: "granted ?S = Some (JStr ''A'')" by code_simp
  have t1: "torn ?S = None" by code_simp
  have g2: "granted ?T = Some (JStr ''A'')" by code_simp
  have t2: "torn ?T = Some (JStr ''B'')" by code_simp
  from bearer_is_last_granted_unless_torn[OF refl g1, where u="''/task/5''"] t1
  have h1: "headers (get_request demo_down (the_client ?S) ''/task/5'') = bearer demo_down (JStr ''A'')"
    by simp
  from bearer_is_last_granted_unless_torn[OF refl g2, where u="''/task/5''"] t2
  have h2: "headers (get_request demo (the_client ?T) ''/task/5'') = bearer demo (JStr ''B'')"
    by simp
  show ?thesis
    by (rule conjI[OF g1 conjI[OF t1 conjI[OF h1 conjI[OF g2 conjI[OF t2 h2]]]]])
qed

text \<open>
  Claim C2 as stated, refuted on the server above.
  The first \<open>authenticate\<close> succeeds with access token \<open>A\<close>; the second gets a
  response with access token \<open>B\<close> and no refresh token and raises
  \<open>KeyError\<close>.  The \<open>get\<close> that follows sends \<open>Bearer B\<close>, not the token of
  the most recent successful call.
\<close>

theorem bearer_not_from_last_successful_authenticate:
  "granted (invoke_all demo [Authenticate, Authenticate] (new_session client0 world0))
     = Some (JStr ''A'')
   \<and> headers (get_request demo
        (the_client (invoke_all demo [Authenticate, Authenticate] (new_session client0 world0)))
        ''/task/5'')
     = [(''Authorization'', ''Bearer B'')]
   \<and> bearer demo (JStr ''A'') = [(''Authorization'', ''Bearer A'')]
   \<and> headers (get_request demo
        (the_client (invoke_all demo [Authenticate, Authenticate] (new_session client0 world0)))
        ''/task/5'')
     \<noteq> bearer demo (JStr ''A'')
   \<and> map (\<lambda>x. headers (fst x))
        (exchanges (the_world
           (invoke_all demo [Authenticate, Authenticate, Get ''/task/5'']
              (new_session client0 world0))))
     = [[], [], [(''Authorization'', ''Bearer B'')]]"
  by code_simp

section \<open>The entry point\<close>

text \<open>
  Claim C9.  Run as a script, the module calls \<open>run\<close> with no argument
  where five are required: the call raises \<open>TypeError\<close> and the world is
  unchanged, so no request has been made.
\<close>

theorem script_fails_before_any_request:
  "script n L ''__main__'' w = Some (Some (Inl TypeError), w)
   \<and> call_run n L [] w = Some (Some (Inl TypeError), w)"
  by (simp add: script_def call_run_def)

end
